theory Spec2Isabelle
  imports
    Complex_Main
    "HOL-Library.Multiset"
    "HOL-Library.Char_ord"
    "HOL-Library.List_Lexorder"
    "HOL-Library.Product_Lexorder"
begin

section \<open>ci-doctor: time and statistics utilities (utils.py)\<close>

text \<open>
  Python integers are unbounded and are modelled as \<^typ>\<open>int\<close>. Python's \<open>//\<close> on
  integers rounds towards minus infinity, as \<open>div\<close> on \<^typ>\<open>int\<close> does.

  \<open>median_ms\<close> (utils.py, lines 34 to 39): \<open>sorted(values)\<close> is \<^const>\<open>sort\<close>; both
  list reads are in range, since the list is not empty when they are reached and
  \<open>n // 2 - 1\<close> is only read for an even, hence positive, \<open>n\<close>.
\<close>

definition median_ms :: "int list \<Rightarrow> int" where
  "median_ms values =
     (if values = [] then 0
      else let xs = sort values; n = length xs
           in if n mod 2 = 1 then xs ! (n div 2)
              else (xs ! (n div 2 - 1) + xs ! (n div 2)) div 2)"

text \<open>
  A \<open>datetime\<close> is modelled as the instant it denotes, in whole seconds, which is the
  resolution of the timestamps the provider returns (\<open>2024-01-01T00:00:00Z\<close>);
  \<open>iso_to_dt\<close> is the parse of the string to that instant. On whole seconds
  \<open>total_seconds()\<close> is an integral float, the product with 1000 is exact and \<open>int\<close>
  changes nothing, so \<open>duration_ms\<close> (utils.py, lines 30 to 31) is the difference in
  milliseconds.
\<close>

type_synonym datetime = int

definition duration_ms :: "datetime \<Rightarrow> datetime \<Rightarrow> int" where
  "duration_ms start end = (end - start) * 1000"

section \<open>Text primitives\<close>

text \<open>
  A Python \<open>str\<close> is modelled as a \<^typ>\<open>string\<close>, whose characters are the code
  points below 256. On these \<open>str.lower\<close> moves the capital letters \<open>A\<close> to \<open>Z\<close> and
  the Latin-1 capitals \<open>0xC0\<close> to \<open>0xDE\<close> (without the multiplication sign \<open>0xD7\<close>) up
  by 32 and leaves every other character alone. Text with code points from 256 on is
  outside the model.
\<close>

definition lower_char :: "char \<Rightarrow> char" where
  "lower_char c =
     (let n = (of_char c :: nat)
      in if (65 \<le> n \<and> n \<le> 90) \<or> (192 \<le> n \<and> n \<le> 222 \<and> n \<noteq> 215)
         then char_of (n + 32) else c)"

definition lower :: "string \<Rightarrow> string" where
  "lower s = map lower_char s"

text \<open>\<open>s.startswith(p)\<close>, \<open>s.endswith(p)\<close> and \<open>sub in s\<close> on strings.\<close>

fun startswith :: "string \<Rightarrow> string \<Rightarrow> bool" where
  "startswith s [] = True"
| "startswith [] (p # ps) = False"
| "startswith (c # s) (p # ps) = (c = p \<and> startswith s ps)"

definition endswith :: "string \<Rightarrow> string \<Rightarrow> bool" where
  "endswith s suffix = startswith (rev s) (rev suffix)"

fun contains :: "string \<Rightarrow> string \<Rightarrow> bool" where
  "contains [] sub = (sub = [])"
| "contains (c # s) sub = (startswith (c # s) sub \<or> contains s sub)"

text \<open>
  \<open>s.split(sep)\<close> for a separator of one character: the pieces between the separators,
  empty pieces included, so the result is never empty (the last branch is not reached).
\<close>

fun split_on :: "char \<Rightarrow> string \<Rightarrow> string list" where
  "split_on sep [] = [[]]"
| "split_on sep (c # s) =
     (if c = sep then [] # split_on sep s
      else (case split_on sep s of w # ws \<Rightarrow> (c # w) # ws | [] \<Rightarrow> [[c]]))"

text \<open>\<open>x or ""\<close> for an optional string.\<close>

definition or_empty :: "string option \<Rightarrow> string" where
  "or_empty x = (case x of None \<Rightarrow> [] | Some s \<Rightarrow> s)"

section \<open>Provider data (providers/base.py)\<close>

text \<open>
  The dataclasses of the provider interface. A field whose name is taken in HOL or by
  another record carries a prime or the record's prefix. \<open>started_at\<close> and \<open>updated_at\<close>
  hold the instants that \<open>iso_to_dt\<close> reads from the ISO strings. A step and a changed
  file are dictionaries from strings to strings.
\<close>

record RunMeta =
  id' :: string
  provider :: string
  repo :: string
  branch :: string
  event :: string
  actor :: "string option"
  status :: string
  conclusion :: "string option"
  run_attempt :: int
  started_at :: datetime
  updated_at :: datetime
  head_sha :: "string option"
  web_url :: string
  workflow_id :: "string option"

record JobMeta =
  job_id :: string
  job_name :: string
  job_conclusion :: "string option"
  job_started_at :: "datetime option"
  completed_at :: "datetime option"
  steps :: "(string \<rightharpoonup> string) list"
  log_lines :: "string list option"

record CompareMeta =
  total_commits :: int
  files :: "(string \<rightharpoonup> string) list"

section \<open>Suspects and baseline (analysis.py)\<close>

definition pick_failing_jobs :: "JobMeta list \<Rightarrow> JobMeta list" where
  "pick_failing_jobs jobs =
     filter (\<lambda>j. lower (or_empty (job_conclusion j)) \<in> {''failure'', ''failed'', ''cancelled''}) jobs"

text \<open>
  The five suspect messages of \<open>gen_suspects\<close>, in the order of their rules:
  \<^item> \<open>Duration_spike\<close>: "Duration spike vs median ... cache miss, dependency install, or
    external service slowdown."
  \<^item> \<open>Lockfile_change\<close>: "Dependency/lockfile changes may have broken build or
    invalidated caches."
  \<^item> \<open>Workflow_change\<close>: "Workflow changes detected ... runner image, permissions, or
    cache keys altered."
  \<^item> \<open>Dockerfile_change\<close>: "Dockerfile changes ... base image/layer differences causing
    failures."
  \<^item> \<open>Dispatch_trigger\<close>: "Manual/dispatch trigger ... verify inputs/secrets."

  The first, third, fourth and fifth text contain an arrow that is not a character below
  256, so the messages are constructors and not strings.
\<close>

datatype suspect =
  Duration_spike | Lockfile_change | Workflow_change | Dockerfile_change | Dispatch_trigger

definition lock_suffixes :: "string list" where
  "lock_suffixes = [''package-lock.json'', ''yarn.lock'', ''pnpm-lock.yaml'', ''poetry.lock'',
     ''requirements.txt'', ''Pipfile.lock'', ''go.sum'', ''Cargo.lock'']"

definition wf_names :: "string list" where
  "wf_names = [''.github/workflows/'', ''ci.yml'', ''ci.yaml'', ''.github/workflows/ci.yaml'',
     ''.github/workflows/ci.yml'']"

text \<open>
  \<open>gen_suspects\<close> (analysis.py, lines 33 to 53). \<open>if baseline_p50_ms:\<close> is Python's truth
  test of an optional integer: it fails on \<open>None\<close> and on 0. \<open>if cmp:\<close> tests an optional
  dataclass instance, which is true whenever it is present. The comparison
  \<open>dur > baseline_p50_ms * 1.5\<close> is between an integer and a float product; Python
  compares the two exactly and the product is exact for a baseline below \<open>2 ^ 51\<close>
  milliseconds, so it is the comparison of the real numbers.
  \<open>f.get("filename", "")\<close> reads the dictionary with a default.
\<close>

definition gen_suspects ::
  "RunMeta \<Rightarrow> JobMeta list \<Rightarrow> CompareMeta option \<Rightarrow> int option \<Rightarrow> suspect list" where
  "gen_suspects run jobs cmp baseline_p50_ms =
     (let suspects1 =
            (case baseline_p50_ms of
               None \<Rightarrow> []
             | Some b \<Rightarrow>
                 if b = 0 then []
                 else (let dur = duration_ms (started_at run) (updated_at run)
                       in if real_of_int dur > real_of_int b * 1.5 then [Duration_spike] else []));
          suspects4 =
            (case cmp of
               None \<Rightarrow> suspects1
             | Some c \<Rightarrow>
                 (let filenames = map (\<lambda>f. case f ''filename'' of None \<Rightarrow> [] | Some v \<Rightarrow> v) (files c);
                      suspects2 =
                        (if list_ex (\<lambda>fname. list_ex (\<lambda>s. endswith fname s) lock_suffixes) filenames
                         then suspects1 @ [Lockfile_change] else suspects1);
                      suspects3 =
                        (if list_ex (\<lambda>fname. list_ex (\<lambda>seg. contains fname seg) wf_names) filenames
                         then suspects2 @ [Workflow_change] else suspects2)
                  in if list_ex (\<lambda>fname. endswith (lower fname) ''dockerfile''
                                        \<or> endswith (lower fname) ''.dockerfile'') filenames
                     then suspects3 @ [Dockerfile_change] else suspects3));
          suspects5 =
            (if event run \<in> {''workflow_dispatch'', ''repository_dispatch''}
             then suspects4 @ [Dispatch_trigger] else suspects4)
      in take 3 suspects5)"

text \<open>
  The loop of \<open>analyze\<close> over the historical successes (analysis.py, lines 66 to 73):
  every run adds its duration, and a run becomes the last success when it started
  before the current run and none has been chosen (\<open>not last_success\<close> tests an optional
  dataclass instance). The state of the loop is the pair of \<open>last_success\<close> and
  \<open>durations\<close>.
\<close>

fun successes_loop ::
  "datetime \<Rightarrow> RunMeta list \<Rightarrow> RunMeta option \<times> int list \<Rightarrow> RunMeta option \<times> int list" where
  "successes_loop cur_start [] st = st"
| "successes_loop cur_start (r # rs) (last_success, durations) =
     successes_loop cur_start rs
       (if started_at r < cur_start \<and> last_success = None then Some r else last_success,
        durations @ [duration_ms (started_at r) (updated_at r)])"

text \<open>
  Step 2 of \<open>analyze\<close>: the last success before the run and the baseline, which is the
  median of the durations when there is one and absent otherwise.
\<close>

definition baseline_and_last_success ::
  "RunMeta \<Rightarrow> RunMeta list \<Rightarrow> RunMeta option \<times> int option" where
  "baseline_and_last_success run successes =
     (let (last_success, durations) = successes_loop (started_at run) successes (None, [])
      in (last_success, if durations \<noteq> [] then Some (median_ms durations) else None))"



text \<open>
  The rules of the suspect generator as the specification lists them (section 4.4): five
  conditions in a fixed order, each with its message. \<open>fired_rules\<close> keeps the messages
  of the conditions that hold, in the order of the list.
\<close>

definition diff_filenames :: "CompareMeta option \<Rightarrow> string list" where
  "diff_filenames cmp =
     (case cmp of None \<Rightarrow> []
      | Some c \<Rightarrow> map (\<lambda>f. case f ''filename'' of None \<Rightarrow> [] | Some v \<Rightarrow> v) (files c))"

definition rules_in_order ::
  "RunMeta \<Rightarrow> CompareMeta option \<Rightarrow> int option \<Rightarrow> (bool \<times> suspect) list" where
  "rules_in_order run cmp baseline =
     [((\<exists>m. baseline = Some m \<and> m \<noteq> 0
            \<and> real_of_int (duration_ms (started_at run) (updated_at run)) > real_of_int m * 1.5),
       Duration_spike),
      ((\<exists>fname \<in> set (diff_filenames cmp). \<exists>s \<in> set lock_suffixes. endswith fname s),
       Lockfile_change),
      ((\<exists>fname \<in> set (diff_filenames cmp). \<exists>seg \<in> set wf_names. contains fname seg),
       Workflow_change),
      ((\<exists>fname \<in> set (diff_filenames cmp).
           endswith (lower fname) ''dockerfile'' \<or> endswith (lower fname) ''.dockerfile''),
       Dockerfile_change),
      (event run \<in> {''workflow_dispatch'', ''repository_dispatch''}, Dispatch_trigger)]"

definition fired_rules :: "RunMeta \<Rightarrow> CompareMeta option \<Rightarrow> int option \<Rightarrow> suspect list" where
  "fired_rules run cmp baseline = map snd (filter fst (rules_in_order run cmp baseline))"

text \<open>A run of the GitHub provider with a given event, conclusion, start and update instant, for the examples.\<close>

definition example_run :: "string \<Rightarrow> string option \<Rightarrow> datetime \<Rightarrow> datetime \<Rightarrow> RunMeta" where
  "example_run ev concl t0 t1 =
     \<lparr>id' = ''1'', provider = ''github'', repo = ''owner/repo'', branch = ''main'', event = ev,
      actor = None, status = ''completed'', conclusion = concl, run_attempt = 1,
      started_at = t0, updated_at = t1, head_sha = None, web_url = [], workflow_id = None\<rparr>"


section \<open>Run URLs (utils.py)\<close>

text \<open>
  A raised exception is a value; the message of an exception is not modelled. A fallible
  function returns \<open>Inl\<close> of the exception or \<open>Inr\<close> of its result.
\<close>

datatype py_exception = ValueError | BadZipFile | KeyError | IndexError | OtherException




definition is_digit :: "char \<Rightarrow> bool" where
  "is_digit c = (let n = (of_char c :: nat) in 48 \<le> n \<and> n \<le> 57)"















record ParsedRunURL =
  owner :: string
  repo' :: string
  run_id :: int





section \<open>The log excerpt extractor (utils.py)\<close>

text \<open>
  \<open>extract_failing_step_logs\<close> (utils.py, lines 55 to 182) is modelled in the four parts
  of its body, each one a definition: the search for the log file (lines 75 to 122), the
  selection of lines (lines 127 to 178), the body of the \<open>try\<close> in which the two sit,
  and the \<open>try\<close> with its \<open>except Exception\<close>.

  The two regular expressions are \<open>^\d+_NAME.txt$\<close> and \<open>^\d+_NAME\<close>, compiled with
  \<open>re.IGNORECASE\<close> and applied with \<open>match\<close>, where \<open>NAME\<close> is the escaped name and so
  matches the name literally. \<open>\d+\<close> is followed by an underscore, which is not a digit,
  so it takes all the leading digits; the name has a fixed length; the dot before \<open>txt\<close>
  is not escaped in the source and matches any character but a line feed; \<open>$\<close> matches
  at the end and before a line feed that ends the string. On code points below 256 two
  characters are equal without regard to case when their \<open>lower\<close> is the same.
\<close>

definition match_digits_underscore :: "string \<Rightarrow> string option" where
  "match_digits_underscore s =
     (case dropWhile is_digit s of
        [] \<Rightarrow> None
      | c # r \<Rightarrow> if takeWhile is_digit s \<noteq> [] \<and> c = CHR ''_'' then Some r else None)"

definition match_literal :: "string \<Rightarrow> string \<Rightarrow> string option" where
  "match_literal nm s =
     (if length nm \<le> length s \<and> lower (take (length nm) s) = lower nm
      then Some (drop (length nm) s) else None)"

definition match_dot_txt_end :: "string \<Rightarrow> bool" where
  "match_dot_txt_end s =
     (case s of
        [] \<Rightarrow> False
      | c # r \<Rightarrow> c \<noteq> CHR 0x0A \<and> (lower r = ''txt'' \<or> lower r = ''txt'' @ [CHR 0x0A]))"

definition exact_pattern_match :: "string \<Rightarrow> string \<Rightarrow> bool" where
  "exact_pattern_match nm s =
     (case match_digits_underscore s of
        None \<Rightarrow> False
      | Some r \<Rightarrow> (case match_literal nm r of None \<Rightarrow> False | Some r' \<Rightarrow> match_dot_txt_end r'))"

definition prefix_pattern_match :: "string \<Rightarrow> string \<Rightarrow> bool" where
  "prefix_pattern_match nm s =
     (case match_digits_underscore s of
        None \<Rightarrow> False
      | Some r \<Rightarrow> match_literal nm r \<noteq> None)"

text \<open>
  \<open>not log_file\<close> and \<open>if failing_step_name\<close> are Python's truth tests of an optional
  string: \<open>None\<close> and the empty string are false.
\<close>

definition truthy :: "string option \<Rightarrow> bool" where
  "truthy x = (case x of None \<Rightarrow> False | Some s \<Rightarrow> s \<noteq> [])"

text \<open>\<open>name.split('/')[-1] if '/' in name else name\<close>.\<close>

definition basename :: "string \<Rightarrow> string" where
  "basename entry = (if CHR ''/'' \<in> set entry then last (split_on CHR ''/'' entry) else entry)"

text \<open>
  The search for the log file over \<open>zip_ref.namelist()\<close>. Each \<open>for\<close> loop with its
  \<open>break\<close> keeps the first name that passes the test, which is \<^const>\<open>find\<close>.
\<close>

definition find_log_file :: "string list \<Rightarrow> string \<Rightarrow> string option \<Rightarrow> string option" where
  "find_log_file namelist failing_job_name failing_step_name =
     (let log_file1 =
            (if truthy failing_step_name then
               (let step = or_empty failing_step_name;
                    exact = find (\<lambda>entry.
                        (CHR ''/'' \<notin> set entry \<and> exact_pattern_match step entry)
                        \<or> (let parts = split_on CHR ''/'' entry
                           in length parts = 2 \<and> exact_pattern_match step (parts ! 1))) namelist
                in if \<not> truthy exact
                   then find (\<lambda>entry. contains (lower entry) (lower step) \<and> endswith entry ''.txt'') namelist
                   else exact)
             else None);
          log_file2 =
            (if \<not> truthy log_file1 \<and> failing_job_name \<noteq> [] then
               (let exact = find (\<lambda>entry. exact_pattern_match failing_job_name (basename entry)) namelist
                in if \<not> truthy exact
                   then find (\<lambda>entry.
                          prefix_pattern_match
                            (map (\<lambda>c. if c = CHR '' '' then CHR ''_'' else c) failing_job_name)
                            (basename entry)
                          \<and> endswith entry ''.txt'' \<and> \<not> contains (lower entry) ''system'') namelist
                   else exact)
             else log_file1)
      in if \<not> truthy log_file2 then None else log_file2)"

text \<open>
  \<open>str.splitlines()\<close> on code points below 256: a line ends at a line feed, a carriage
  return (with a line feed that follows it), a vertical tab, a form feed, a file, group
  or record separator, or a next-line character; the line ends are dropped and a last
  line without an end is kept. The first argument is the line read so far, reversed.
\<close>

definition line_boundary :: "char \<Rightarrow> bool" where
  "line_boundary c = ((of_char c :: nat) \<in> {10, 11, 12, 13, 28, 29, 30, 133})"

fun split_lines_from :: "string \<Rightarrow> string \<Rightarrow> string list" where
  "split_lines_from cur [] = (if cur = [] then [] else [rev cur])"
| "split_lines_from cur (c # s) =
     (if c = CHR 0x0D then
        (case s of
           [] \<Rightarrow> [rev cur]
         | d # s' \<Rightarrow> if d = CHR 0x0A then rev cur # split_lines_from [] s'
                     else rev cur # split_lines_from [] s)
      else if line_boundary c then rev cur # split_lines_from [] s
      else split_lines_from (c # cur) s)"

definition splitlines :: "string \<Rightarrow> string list" where
  "splitlines s = split_lines_from [] s"

text \<open>
  The error markers. Each is a regular expression without a special character, searched
  with \<open>re.IGNORECASE\<close>, so a line matches when its lower-case form contains the
  lower-case form of a marker.
\<close>

definition error_patterns :: "string list" where
  "error_patterns = [''error:'', ''Error:'', ''ERROR:'', ''failed:'', ''Failed:'', ''FAILED:'',
     ''fatal:'', ''Fatal:'', ''FATAL:'', ''assertion failed'', ''AssertionError'', ''Exception:'',
     ''Traceback'', ''exit code'', ''exit status'', ''Command failed'']"

definition is_error_line :: "string \<Rightarrow> bool" where
  "is_error_line line = list_ex (\<lambda>pattern. contains (lower line) (lower pattern)) error_patterns"

text \<open>
  Python's \<open>xs[i]\<close> and \<open>xs[k:]\<close> for integers: a negative index counts from the end, an
  index out of range raises \<open>IndexError\<close>, and a slice clips its start to the list.
\<close>

definition py_index :: "'a list \<Rightarrow> int \<Rightarrow> py_exception + 'a" where
  "py_index xs i =
     (if 0 \<le> i \<and> i < int (length xs) then Inr (xs ! nat i)
      else if i < 0 \<and> - int (length xs) \<le> i then Inr (xs ! nat (int (length xs) + i))
      else Inl IndexError)"

definition py_slice_from :: "'a list \<Rightarrow> int \<Rightarrow> 'a list" where
  "py_slice_from xs k =
     (if k < 0 then drop (nat (int (length xs) + k)) xs else drop (nat k) xs)"

text \<open>
  The two nested loops over the error indices and over \<open>range(start, end)\<close>. The state
  is the pair of \<open>result_lines\<close> and \<open>result_indices\<close>.
\<close>

fun window_loop ::
  "string list \<Rightarrow> int list \<Rightarrow> (int \<times> string) list \<times> int set
   \<Rightarrow> py_exception + ((int \<times> string) list \<times> int set)" where
  "window_loop lines [] st = Inr st"
| "window_loop lines (idx # rest) (result_lines, result_indices) =
     (if idx \<notin> result_indices then
        (case py_index lines idx of
           Inl e \<Rightarrow> Inl e
         | Inr l \<Rightarrow> window_loop lines rest (result_lines @ [(idx, l)], insert idx result_indices))
      else window_loop lines rest (result_lines, result_indices))"

fun errors_loop ::
  "string list \<Rightarrow> int \<Rightarrow> int list \<Rightarrow> (int \<times> string) list \<times> int set
   \<Rightarrow> py_exception + ((int \<times> string) list \<times> int set)" where
  "errors_loop lines context_lines [] st = Inr st"
| "errors_loop lines context_lines (err_idx # rest) st =
     (let start = max 0 (err_idx - context_lines);
          end = min (int (length lines)) (err_idx + context_lines + 1)
      in case window_loop lines [start..end - 1] st of
           Inl e \<Rightarrow> Inl e
         | Inr st' \<Rightarrow> errors_loop lines context_lines rest st')"

text \<open>
  The selection of lines (utils.py, lines 149 to 178). \<open>result_lines.sort()\<close> sorts pairs
  of an index and a line, index first.
\<close>

definition select_lines :: "string list \<Rightarrow> int \<Rightarrow> int \<Rightarrow> py_exception + string list" where
  "select_lines lines max_lines context_lines =
     (let error_indices = map (\<lambda>(i, line). int i) (filter (\<lambda>(i, line). is_error_line line) (enumerate 0 lines))
      in if error_indices \<noteq> [] then
           (case errors_loop lines context_lines error_indices ([], {}) of
              Inl e \<Rightarrow> Inl e
            | Inr (result_lines, result_indices) \<Rightarrow>
                (let sorted_lines = sort result_lines
                 in if int (length sorted_lines) > max_lines
                    then Inr (map snd (py_slice_from sorted_lines (- max_lines)))
                    else Inr (map snd sorted_lines)))
         else Inr (if int (length lines) > max_lines then py_slice_from lines (- max_lines) else lines))"

text \<open>
  The archive. \<open>zipfile.ZipFile(io.BytesIO(logs_zip), 'r')\<close> is Python's standard library: it
  raises on a blob that is not a ZIP archive and otherwise gives the entries in the order
  of \<open>namelist()\<close>. It is a parameter of the model, \<open>ZipFile\<close>. An entry is its name with
  the outcome of reading it, which is a failure for an entry that cannot be decompressed
  or fails its check sum. \<open>read(name)\<close> reads the last entry of that name and raises
  \<open>KeyError\<close> when there is none. \<open>bytes.decode('utf-8', errors='replace')\<close> is the parameter
  \<open>decode\<close>: with \<open>errors='replace'\<close> it raises on no input and puts the replacement
  character for what it cannot decode.
\<close>

type_synonym bytes = "nat list"

type_synonym zip_file = "(string \<times> (py_exception + bytes)) list"

definition zip_namelist :: "zip_file \<Rightarrow> string list" where
  "zip_namelist zf = map fst zf"

definition zip_read :: "zip_file \<Rightarrow> string \<Rightarrow> py_exception + bytes" where
  "zip_read zf entry =
     (case find (\<lambda>e. fst e = entry) (rev zf) of None \<Rightarrow> Inl KeyError | Some e \<Rightarrow> snd e)"

text \<open>The body of the \<open>try\<close> statement (utils.py, lines 70 to 178).\<close>

definition extract_body ::
  "(bytes \<Rightarrow> py_exception + zip_file) \<Rightarrow> (bytes \<Rightarrow> string) \<Rightarrow> bytes \<Rightarrow> string \<Rightarrow> string option
   \<Rightarrow> int \<Rightarrow> int \<Rightarrow> py_exception + string list option" where
  "extract_body ZipFile decode logs_zip failing_job_name failing_step_name max_lines context_lines =
     (case ZipFile logs_zip of
        Inl e \<Rightarrow> Inl e
      | Inr zip_ref \<Rightarrow>
          (case find_log_file (zip_namelist zip_ref) failing_job_name failing_step_name of
             None \<Rightarrow> Inr None
           | Some log_file \<Rightarrow>
               (case zip_read zip_ref log_file of
                  Inl e \<Rightarrow> Inl e
                | Inr content \<Rightarrow>
                    (case select_lines (splitlines (decode content)) max_lines context_lines of
                       Inl e \<Rightarrow> Inl e
                     | Inr excerpt \<Rightarrow> Inr (Some excerpt)))))"

text \<open>
  \<open>extract_failing_step_logs\<close>: the \<open>try\<close> with \<open>except Exception: return None\<close>. The
  defaults of the source are 50 for \<open>max_lines\<close> and 5 for \<open>context_lines\<close>.
\<close>

definition extract_failing_step_logs ::
  "(bytes \<Rightarrow> py_exception + zip_file) \<Rightarrow> (bytes \<Rightarrow> string) \<Rightarrow> bytes \<Rightarrow> string \<Rightarrow> string option
   \<Rightarrow> int \<Rightarrow> int \<Rightarrow> py_exception + string list option" where
  "extract_failing_step_logs ZipFile decode logs_zip failing_job_name failing_step_name max_lines context_lines =
     (case extract_body ZipFile decode logs_zip failing_job_name failing_step_name max_lines context_lines of
        Inl e \<Rightarrow> Inr None
      | Inr r \<Rightarrow> Inr r)"

text \<open>
  The excerpt as the specification words it (section 4.2): a line belongs to the context
  when its index is within \<open>contextLines\<close> of the index of a line that matches an error
  marker; the context is these lines in the order of the file, each once; \<open>last_n\<close> keeps
  the last \<open>n\<close> elements of a list, and all of them when there are no more than \<open>n\<close>.
\<close>

definition in_window :: "string list \<Rightarrow> int \<Rightarrow> nat \<Rightarrow> bool" where
  "in_window lines context_lines i =
     list_ex (\<lambda>e. is_error_line (lines ! e) \<and> \<bar>int i - int e\<bar> \<le> context_lines) [0..<length lines]"

definition error_context :: "string list \<Rightarrow> int \<Rightarrow> string list" where
  "error_context lines context_lines =
     map (\<lambda>i. lines ! i) (filter (in_window lines context_lines) [0..<length lines])"

definition last_n :: "nat \<Rightarrow> 'a list \<Rightarrow> 'a list" where
  "last_n n xs = drop (length xs - n) xs"

text \<open>
  The invariant of the two loops: \<open>result_indices\<close> holds the indices of \<open>result_lines\<close>,
  no index occurs twice, and every pair is an index of the file with the line at it.
\<close>

definition excerpt_inv :: "string list \<Rightarrow> (int \<times> string) list \<times> int set \<Rightarrow> bool" where
  "excerpt_inv lines st =
     (snd st = fst ` set (fst st) \<and> distinct (map fst (fst st))
      \<and> (\<forall>p \<in> set (fst st). 0 \<le> fst p \<and> fst p < int (length lines) \<and> snd p = lines ! nat (fst p)))"

text \<open>
  The resolution of the log entry in the words of the specification (section 4.2).
  \<open>strict_pattern_match\<close> is the pattern \<open>^\d+_NAME\.txt$\<close> with an escaped dot.
  \<open>claimed_log_entry\<close> follows the specification: the exact pattern on the base name in
  the flat or the nested layout and then a substring match, for the step name and then
  in the same way for the job name, where the substring match on the job name leaves out
  entries with \<open>system\<close> in their name. \<open>resolve_log_entry\<close> is the resolution with the
  search by job name as the source has it: the exact pattern on the base name at any
  depth, and then the pattern \<open>^\d+_NAME\<close> on the base name, with the spaces of the job
  name as underscores, for an entry that ends in \<open>.txt\<close> and has no \<open>system\<close> in its name;
  an empty step name or job name counts as not given.
\<close>

definition strict_pattern_match :: "string \<Rightarrow> string \<Rightarrow> bool" where
  "strict_pattern_match nm s =
     (case match_digits_underscore s of
        None \<Rightarrow> False
      | Some r \<Rightarrow>
          (case match_literal nm r of
             None \<Rightarrow> False
           | Some r' \<Rightarrow> (case r' of [] \<Rightarrow> False
                        | c # t \<Rightarrow> c = CHR ''.'' \<and> (lower t = ''txt'' \<or> lower t = ''txt'' @ [CHR 0x0A]))))"

definition flat_or_nested :: "string \<Rightarrow> bool" where
  "flat_or_nested entry = (CHR ''/'' \<notin> set entry \<or> length (split_on CHR ''/'' entry) = 2)"

definition first_of :: "'a option \<Rightarrow> 'a option \<Rightarrow> 'a option" where
  "first_of a b = (case a of Some x \<Rightarrow> Some x | None \<Rightarrow> b)"

definition claimed_log_entry :: "string list \<Rightarrow> string \<Rightarrow> string option \<Rightarrow> string option" where
  "claimed_log_entry names job_nm step_nm =
     first_of
       (case step_nm of
          None \<Rightarrow> None
        | Some step \<Rightarrow>
            first_of
              (find (\<lambda>entry. flat_or_nested entry \<and> strict_pattern_match step (basename entry)) names)
              (find (\<lambda>entry. contains (lower entry) (lower step) \<and> endswith entry ''.txt'') names))
       (first_of
          (find (\<lambda>entry. flat_or_nested entry \<and> strict_pattern_match job_nm (basename entry)) names)
          (find (\<lambda>entry. contains (lower entry) (lower job_nm) \<and> endswith entry ''.txt''
                         \<and> \<not> contains (lower entry) ''system'') names))"

definition resolve_log_entry :: "string list \<Rightarrow> string \<Rightarrow> string option \<Rightarrow> string option" where
  "resolve_log_entry names job_nm step_nm =
     first_of
       (case step_nm of
          None \<Rightarrow> None
        | Some step \<Rightarrow>
            if step = [] then None
            else first_of
              (find (\<lambda>entry. flat_or_nested entry \<and> strict_pattern_match step (basename entry)) names)
              (find (\<lambda>entry. contains (lower entry) (lower step) \<and> endswith entry ''.txt'') names))
       (if job_nm = [] then None
        else first_of
          (find (\<lambda>entry. strict_pattern_match job_nm (basename entry)) names)
          (find (\<lambda>entry. prefix_pattern_match
                            (map (\<lambda>c. if c = CHR '' '' then CHR ''_'' else c) job_nm) (basename entry)
                         \<and> endswith entry ''.txt'' \<and> \<not> contains (lower entry) ''system'') names))"

text \<open>The indices of \<open>range(start, end)\<close> around one error index.\<close>

definition window_of :: "string list \<Rightarrow> int \<Rightarrow> int \<Rightarrow> int set" where
  "window_of lines ctx e = {i. max 0 (e - ctx) \<le> i \<and> i < min (int (length lines)) (e + ctx + 1)}"

section \<open>Properties\<close>

lemma median_ms_sorted_view:
  assumes "sorted zs" and "mset zs = mset xs"
  shows "median_ms xs =
     (if xs = [] then 0
      else if length xs mod 2 = 1 then zs ! (length xs div 2)
      else (zs ! (length xs div 2 - 1) + zs ! (length xs div 2)) div 2)"
proof -
  have "sort xs = zs"
    using assms by (simp add: properties_for_sort)
  moreover have "length zs = length xs"
    using assms(2) by (metis size_mset)
  ultimately show ?thesis
    by (simp add: median_ms_def Let_def)
qed

text \<open>
  C5. The median does not depend on the order of its input; for an odd count it is the
  middle element of the ascending arrangement, for an even count the floor of the mean
  of the two middle elements, and for the empty sequence it is 0. The ascending
  arrangement is any sorted list with the same elements and multiplicities.
\<close>

theorem median_ms_permutation_middle:
  "(mset xs = mset ys \<longrightarrow> median_ms xs = median_ms ys)
   \<and> (\<forall>zs. sorted zs \<and> mset zs = mset xs \<and> odd (length xs)
          \<longrightarrow> median_ms xs = zs ! (length xs div 2))
   \<and> (\<forall>zs. sorted zs \<and> mset zs = mset xs \<and> xs \<noteq> [] \<and> even (length xs)
          \<longrightarrow> median_ms xs = (zs ! (length xs div 2 - 1) + zs ! (length xs div 2)) div 2)
   \<and> median_ms [] = 0"
proof (intro conjI allI impI)
  assume "mset xs = mset ys"
  then have "sort xs = sort ys"
    by (simp add: properties_for_sort)
  moreover have "xs = [] \<longleftrightarrow> ys = []"
    using \<open>mset xs = mset ys\<close> by (metis mset_zero_iff)
  ultimately show "median_ms xs = median_ms ys"
    by (simp add: median_ms_def)
next
  fix zs assume h: "sorted zs \<and> mset zs = mset xs \<and> odd (length xs)"
  then have "xs \<noteq> []" by auto
  moreover have "length xs mod 2 = 1" using h by (simp add: odd_iff_mod_2_eq_one)
  ultimately show "median_ms xs = zs ! (length xs div 2)"
    using h median_ms_sorted_view [of zs xs] by simp
next
  fix zs assume h: "sorted zs \<and> mset zs = mset xs \<and> xs \<noteq> [] \<and> even (length xs)"
  then have "length xs mod 2 \<noteq> 1" by presburger
  then show "median_ms xs = (zs ! (length xs div 2 - 1) + zs ! (length xs div 2)) div 2"
    using h median_ms_sorted_view [of zs xs] by simp
next
  show "median_ms [] = 0" by (simp add: median_ms_def)
qed

theorem median_ms_permutation_middle_witness:
  "median_ms [3, 1, 2] = median_ms [1, 2, 3]
   \<and> median_ms [3, 1, 2] = 2
   \<and> median_ms [4, 1, 3, 2] = 2
   \<and> median_ms [] = 0"
proof -
  have s3: "sorted [1, 2, 3 :: int] \<and> mset [1, 2, 3 :: int] = mset [3, 1, 2] \<and> odd (length [3, 1, 2 :: int])"
    by simp
  have s4: "sorted [1, 2, 3, 4 :: int] \<and> mset [1, 2, 3, 4 :: int] = mset [4, 1, 3, 2]
            \<and> [4, 1, 3, 2 :: int] \<noteq> [] \<and> even (length [4, 1, 3, 2 :: int])"
    by simp
  have p: "mset [3, 1, 2 :: int] = mset [1, 2, 3]"
    by simp
  from median_ms_permutation_middle [of "[3, 1, 2]" "[1, 2, 3]"] p s3
  have a: "median_ms [3, 1, 2] = median_ms [1, 2, 3]" and b: "median_ms [3, 1, 2] = [1, 2, 3] ! (length [3, 1, 2 :: int] div 2)"
    by blast+
  from median_ms_permutation_middle [of "[4, 1, 3, 2]" "[]"] s4
  have c: "median_ms [4, 1, 3, 2] = ([1, 2, 3, 4] ! (length [4, 1, 3, 2 :: int] div 2 - 1) + [1, 2, 3, 4] ! (length [4, 1, 3, 2 :: int] div 2)) div 2"
    and d: "median_ms [] = 0"
    by blast+
  from a b c d show ?thesis by simp
qed

section \<open>Text primitives are what their names say\<close>

lemma startswith_iff: "startswith s p \<longleftrightarrow> (\<exists>r. s = p @ r)"
  by (induction s p rule: startswith.induct) auto

lemma endswith_iff: "endswith s suffix \<longleftrightarrow> (\<exists>r. s = r @ suffix)"
proof -
  have "(\<exists>r. rev s = rev suffix @ r) \<longleftrightarrow> (\<exists>r. s = r @ suffix)"
  proof
    assume "\<exists>r. rev s = rev suffix @ r"
    then obtain r where "rev s = rev suffix @ r" ..
    then have "rev (rev s) = rev (rev suffix @ r)" by simp
    then have "s = rev r @ suffix" by simp
    then show "\<exists>r. s = r @ suffix" ..
  next
    assume "\<exists>r. s = r @ suffix"
    then obtain r where "s = r @ suffix" ..
    then have "rev s = rev suffix @ rev r" by simp
    then show "\<exists>r. rev s = rev suffix @ r" ..
  qed
  then show ?thesis by (simp add: endswith_def startswith_iff)
qed


section \<open>The suspect generator\<close>

lemmas char_eval = lower_def lower_char_def char_of_def bit_iff_odd

lemma fired_shape:
  "map snd (filter fst [(a, A), (b, B), (c, C), (d, D), (e, E)])
   = (if a then [A] else []) @ (if b then [B] else []) @ (if c then [C] else [])
     @ (if d then [D] else []) @ (if e then [E] else [])"
  by simp

lemma gen_suspects_fired: "gen_suspects run jobs cmp b = take 3 (fired_rules run cmp b)"
proof -
  define spike where "spike = (\<exists>m. b = Some m \<and> m \<noteq> 0
       \<and> real_of_int (duration_ms (started_at run) (updated_at run)) > real_of_int m * 1.5)"
  define names where "names = diff_filenames cmp"
  define lock where "lock = (\<exists>fname \<in> set names. \<exists>s \<in> set lock_suffixes. endswith fname s)"
  define wf where "wf = (\<exists>fname \<in> set names. \<exists>seg \<in> set wf_names. contains fname seg)"
  define docker where "docker = (\<exists>fname \<in> set names.
       endswith (lower fname) ''dockerfile'' \<or> endswith (lower fname) ''.dockerfile'')"
  define disp where "disp = (event run \<in> {''workflow_dispatch'', ''repository_dispatch''})"
  have s1: "(case b of None \<Rightarrow> []
             | Some m \<Rightarrow> if m = 0 then []
                 else if real_of_int (duration_ms (started_at run) (updated_at run)) > real_of_int m * 1.5
                      then [Duration_spike] else [])
            = (if spike then [Duration_spike] else [])"
    unfolding spike_def by (cases b) simp_all
  have f: "fired_rules run cmp b
     = (if spike then [Duration_spike] else []) @ (if lock then [Lockfile_change] else [])
       @ (if wf then [Workflow_change] else []) @ (if docker then [Dockerfile_change] else [])
       @ (if disp then [Dispatch_trigger] else [])"
    unfolding fired_rules_def rules_in_order_def names_def [symmetric] spike_def [symmetric]
      lock_def [symmetric] wf_def [symmetric] docker_def [symmetric] disp_def [symmetric]
    by (rule fired_shape)
  have g: "gen_suspects run jobs cmp b
     = take 3 ((if spike then [Duration_spike] else []) @ (if lock then [Lockfile_change] else [])
       @ (if wf then [Workflow_change] else []) @ (if docker then [Dockerfile_change] else [])
       @ (if disp then [Dispatch_trigger] else []))"
  proof (cases cmp)
    case None
    then have "names = []" by (simp add: names_def diff_filenames_def)
    then have "\<not> lock" "\<not> wf" "\<not> docker" by (simp_all add: lock_def wf_def docker_def)
    then show ?thesis
      unfolding gen_suspects_def Let_def unfolding s1 disp_def [symmetric] using None by simp
  next
    case (Some c)
    then have n: "map (\<lambda>f. case f ''filename'' of None \<Rightarrow> [] | Some v \<Rightarrow> v) (files c) = names"
      by (simp add: names_def diff_filenames_def)
    show ?thesis
      unfolding gen_suspects_def Let_def unfolding s1 disp_def [symmetric] list_ex_iff using Some
      by (simp add: n lock_def [symmetric] wf_def [symmetric] docker_def [symmetric])
  qed
  show ?thesis by (simp only: f g)
qed

lemma spike_in_take:
  "Duration_spike \<in> set (take 3 (fired_rules run cmp b))
   \<longleftrightarrow> (\<exists>m. b = Some m \<and> m \<noteq> 0
          \<and> real_of_int (duration_ms (started_at run) (updated_at run)) > real_of_int m * 1.5)"
  by (simp add: fired_rules_def rules_in_order_def)

text \<open>
  C3, as the code has it. The duration-spike suspect is emitted exactly when the baseline
  is present, is not 0, and the run's duration exceeds 1.5 times the baseline; with an
  absent baseline, and with a baseline of 0, the rule never fires.
\<close>

theorem duration_spike_iff:
  "(Duration_spike \<in> set (gen_suspects run jobs cmp b)
      \<longleftrightarrow> (\<exists>m. b = Some m \<and> m \<noteq> 0
             \<and> real_of_int (duration_ms (started_at run) (updated_at run)) > real_of_int m * 1.5))
   \<and> (b = None \<or> b = Some 0 \<longrightarrow> Duration_spike \<notin> set (gen_suspects run jobs cmp b))"
  by (auto simp add: gen_suspects_fired spike_in_take)

theorem duration_spike_iff_witness:
  "Duration_spike \<in> set (gen_suspects (example_run ''push'' (Some ''failure'') 0 1) [] None (Some 100))
   \<and> Duration_spike \<notin> set (gen_suspects (example_run ''push'' (Some ''failure'') 0 1) [] None None)"
  using duration_spike_iff [of "example_run ''push'' (Some ''failure'') 0 1" "[]" None "Some 100"]
    duration_spike_iff [of "example_run ''push'' (Some ''failure'') 0 1" "[]" None None]
  by (simp add: example_run_def duration_ms_def)

text \<open>
  C3 as stated fails at a present baseline of 0: a run of one second exceeds 1.5 times 0,
  and no duration-spike suspect is emitted.
\<close>

theorem duration_spike_zero_baseline_counterexample:
  "\<not> (Duration_spike \<in> set (gen_suspects (example_run ''push'' (Some ''failure'') 0 1) [] None (Some 0))
       \<longleftrightarrow> real_of_int (duration_ms (started_at (example_run ''push'' (Some ''failure'') 0 1))
                                    (updated_at (example_run ''push'' (Some ''failure'') 0 1)))
             > real_of_int 0 * 1.5)"
  by (simp add: gen_suspects_def example_run_def duration_ms_def)

text \<open>
  C6. The suspects are the messages of the rules that fired, in the fixed order duration
  spike, lockfile, workflow change, container build file, dispatch trigger, cut to the
  first three; so there are at most three, and none is moved. For a diff of
  \<open>package-lock.json\<close> and \<open>.github/workflows/ci.yml\<close>, no baseline and an event that is
  not a dispatch, the suspects are the lockfile suspect and then the workflow suspect.
\<close>

theorem gen_suspects_rule_order_cap:
  "gen_suspects run jobs cmp b = take 3 (fired_rules run cmp b)
   \<and> map snd (rules_in_order run cmp b)
       = [Duration_spike, Lockfile_change, Workflow_change, Dockerfile_change, Dispatch_trigger]
   \<and> length (gen_suspects run jobs cmp b) \<le> 3
   \<and> (event run \<notin> {''workflow_dispatch'', ''repository_dispatch''}
        \<and> f1 ''filename'' = Some ''package-lock.json''
        \<and> f2 ''filename'' = Some ''.github/workflows/ci.yml''
      \<longrightarrow> gen_suspects run jobs (Some \<lparr>total_commits = n, files = [f1, f2]\<rparr>) None
            = [Lockfile_change, Workflow_change])"
proof (intro conjI impI)
  show "gen_suspects run jobs cmp b = take 3 (fired_rules run cmp b)"
    by (rule gen_suspects_fired)
  show "map snd (rules_in_order run cmp b)
       = [Duration_spike, Lockfile_change, Workflow_change, Dockerfile_change, Dispatch_trigger]"
    by (simp add: rules_in_order_def)
  show "length (gen_suspects run jobs cmp b) \<le> 3"
    by (simp add: gen_suspects_fired)
next
  assume h: "event run \<notin> {''workflow_dispatch'', ''repository_dispatch''}
        \<and> f1 ''filename'' = Some ''package-lock.json''
        \<and> f2 ''filename'' = Some ''.github/workflows/ci.yml''"
  have l1: "lower ''package-lock.json'' = ''package-lock.json''"
    by (simp add: char_eval)
  have l2: "lower ''.github/workflows/ci.yml'' = ''.github/workflows/ci.yml''"
    by (simp add: char_eval)
  show "gen_suspects run jobs (Some \<lparr>total_commits = n, files = [f1, f2]\<rparr>) None
            = [Lockfile_change, Workflow_change]"
    using h by (simp add: gen_suspects_def lock_suffixes_def wf_names_def endswith_def l1 l2)
qed

theorem gen_suspects_rule_order_cap_witness:
  "gen_suspects (example_run ''push'' (Some ''failure'') 0 1) []
     (Some \<lparr>total_commits = 1,
            files = [[''filename'' \<mapsto> ''package-lock.json''],
                     [''filename'' \<mapsto> ''.github/workflows/ci.yml'']]\<rparr>) None
   = [Lockfile_change, Workflow_change]"
  using gen_suspects_rule_order_cap [of "example_run ''push'' (Some ''failure'') 0 1"
      "[]" None None "[''filename'' \<mapsto> ''package-lock.json'']"
      "[''filename'' \<mapsto> ''.github/workflows/ci.yml'']" 1]
  by (simp add: example_run_def)

section \<open>The last success and the baseline\<close>

lemma successes_loop_last:
  "fst (successes_loop cur rs (chosen, ds))
   = (case chosen of Some r \<Rightarrow> Some r | None \<Rightarrow> find (\<lambda>r. started_at r < cur) rs)"
  by (induction rs arbitrary: chosen ds) (auto split: option.splits)

text \<open>
  C4. The last success the analyzer selects is the first run, in the order the provider
  returned, that started strictly before the current run, and is absent when there is
  none. It is not the latest such run: of two runs that both started before the current
  one, the first listed is selected although the second started later.
\<close>

theorem last_success_first_in_order:
  "fst (baseline_and_last_success run successes)
     = find (\<lambda>r. started_at r < started_at run) successes
   \<and> (started_at a < started_at b \<and> started_at b < started_at run
      \<longrightarrow> fst (baseline_and_last_success run [a, b]) = Some a)"
proof -
  have "fst (baseline_and_last_success run rs) = find (\<lambda>r. started_at r < started_at run) rs" for rs
    using successes_loop_last [of "started_at run" rs None "[]"]
    by (simp add: baseline_and_last_success_def split_beta Let_def)
  then show ?thesis by simp
qed

theorem last_success_first_in_order_witness:
  "fst (baseline_and_last_success (example_run ''push'' (Some ''failure'') 10 11)
         [example_run ''push'' (Some ''success'') 12 13,
          example_run ''push'' (Some ''success'') 1 2,
          example_run ''push'' (Some ''success'') 5 6])
   = Some (example_run ''push'' (Some ''success'') 1 2)
   \<and> fst (baseline_and_last_success (example_run ''push'' (Some ''failure'') 10 11)
         [example_run ''push'' (Some ''success'') 1 2,
          example_run ''push'' (Some ''success'') 5 6])
   = Some (example_run ''push'' (Some ''success'') 1 2)"
  using last_success_first_in_order [of "example_run ''push'' (Some ''failure'') 10 11"
      "[example_run ''push'' (Some ''success'') 12 13,
        example_run ''push'' (Some ''success'') 1 2,
        example_run ''push'' (Some ''success'') 5 6]"
      "example_run ''push'' (Some ''success'') 1 2" "example_run ''push'' (Some ''success'') 5 6"]
  by (simp add: example_run_def)

section \<open>The cancellation reason\<close>




section \<open>Run URL parsing\<close>

lemma split_on_absent: "c \<notin> set s \<Longrightarrow> split_on c s = [s]"
  by (induction s) auto

lemma split_on_nonempty: "split_on c s \<noteq> []"
  by (induction s) (auto split: list.splits)












































section \<open>The log excerpt extractor\<close>

lemma py_index_in_range:
  "0 \<le> i \<Longrightarrow> i < int (length xs) \<Longrightarrow> py_index xs i = Inr (xs ! nat i)"
  by (simp add: py_index_def)

lemma window_loop_inv:
  assumes "\<forall>i \<in> set idxs. 0 \<le> i \<and> i < int (length lines)" and "excerpt_inv lines st"
  shows "\<exists>st'. window_loop lines idxs st = Inr st' \<and> excerpt_inv lines st'
              \<and> snd st' = snd st \<union> set idxs"
  using assms
proof (induction idxs arbitrary: st)
  case Nil
  then show ?case by simp
next
  case (Cons idx rest)
  obtain rl ri where st: "st = (rl, ri)" by (cases st)
  have r: "0 \<le> idx" "idx < int (length lines)" and rest: "\<forall>i \<in> set rest. 0 \<le> i \<and> i < int (length lines)"
    using Cons.prems(1) by auto
  show ?case
  proof (cases "idx \<in> ri")
    case True
    obtain st' where "window_loop lines rest st = Inr st'" "excerpt_inv lines st'" "snd st' = snd st \<union> set rest"
      using Cons.IH [OF rest Cons.prems(2)] by blast
    then show ?thesis using True st by auto
  next
    case False
    let ?st1 = "(rl @ [(idx, lines ! nat idx)], insert idx ri)"
    have "excerpt_inv lines ?st1"
      using Cons.prems(2) False r by (auto simp add: excerpt_inv_def st)
    then obtain st' where "window_loop lines rest ?st1 = Inr st'" "excerpt_inv lines st'"
        "snd st' = snd ?st1 \<union> set rest"
      using Cons.IH [OF rest] by blast
    then show ?thesis using False st r by (auto simp add: py_index_in_range)
  qed
qed

lemma errors_loop_inv:
  assumes "excerpt_inv lines st"
  shows "\<exists>st'. errors_loop lines ctx errs st = Inr st' \<and> excerpt_inv lines st'
              \<and> snd st' = snd st \<union> (\<Union>e \<in> set errs. window_of lines ctx e)"
  using assms
proof (induction errs arbitrary: st)
  case Nil
  then show ?case by simp
next
  case (Cons e rest)
  let ?idxs = "[max 0 (e - ctx)..min (int (length lines)) (e + ctx + 1) - 1]"
  have rng: "\<forall>i \<in> set ?idxs. 0 \<le> i \<and> i < int (length lines)" by auto
  have w: "set ?idxs = window_of lines ctx e" by (auto simp add: window_of_def)
  obtain st1 where 1: "window_loop lines ?idxs st = Inr st1" "excerpt_inv lines st1"
      "snd st1 = snd st \<union> set ?idxs"
    using window_loop_inv [OF rng Cons.prems] by blast
  obtain st' where 2: "errors_loop lines ctx rest st1 = Inr st'" "excerpt_inv lines st'"
      "snd st' = snd st1 \<union> (\<Union>e \<in> set rest. window_of lines ctx e)"
    using Cons.IH [OF 1(2)] by blast
  show ?case using 1 2 w by (auto simp add: Let_def)
qed


lemma error_indices_set:
  "set (map (\<lambda>(i, line). int i) (filter (\<lambda>(i, line). P line) (enumerate 0 xs)))
   = {int i | i. i < length xs \<and> P (xs ! i)}"
  by (auto simp add: in_set_enumerate_eq image_iff split_beta)

lemma error_indices_nonempty:
  "map (\<lambda>(i, line). int i) (filter (\<lambda>(i, line). P line) (enumerate 0 xs)) \<noteq> []
   \<longleftrightarrow> (\<exists>l \<in> set xs. P l)"
proof -
  define errs where "errs = map (\<lambda>(i, line). int i) (filter (\<lambda>(i, line). P line) (enumerate 0 xs))"
  have "errs \<noteq> [] \<longleftrightarrow> set errs \<noteq> {}" by simp
  also have "set errs = {int i | i. i < length xs \<and> P (xs ! i)}"
    unfolding errs_def by (rule error_indices_set)
  also have "{int i | i. i < length xs \<and> P (xs ! i)} \<noteq> {} \<longleftrightarrow> (\<exists>l \<in> set xs. P l)"
  proof
    assume "{int i | i. i < length xs \<and> P (xs ! i)} \<noteq> {}"
    then obtain i where "i < length xs" "P (xs ! i)" by auto
    moreover from this have "xs ! i \<in> set xs" by simp
    ultimately show "\<exists>l \<in> set xs. P l" by blast
  next
    assume "\<exists>l \<in> set xs. P l"
    then obtain i where "i < length xs" "P (xs ! i)" by (auto simp add: in_set_conv_nth)
    then show "{int i | i. i < length xs \<and> P (xs ! i)} \<noteq> {}" by blast
  qed
  finally show ?thesis by (simp add: errs_def)
qed

lemma windows_union:
  "(\<Union>e \<in> {int i | i. i < length lines \<and> is_error_line (lines ! i)}. window_of lines ctx e)
   = int ` {i. i < length lines \<and> in_window lines ctx i}"
proof (intro set_eqI iffI)
  fix x
  assume "x \<in> (\<Union>e \<in> {int i | i. i < length lines \<and> is_error_line (lines ! i)}. window_of lines ctx e)"
  then obtain e where e: "e < length lines" "is_error_line (lines ! e)" "x \<in> window_of lines ctx (int e)"
    by auto
  then have x: "0 \<le> x" "x < int (length lines)" "int e - ctx \<le> x" "x \<le> int e + ctx"
    by (auto simp add: window_of_def)
  then have "\<bar>int (nat x) - int e\<bar> \<le> ctx" by simp
  then have "in_window lines ctx (nat x)"
    using e(1,2) by (auto simp add: in_window_def list_ex_iff)
  moreover have "nat x < length lines" using x by simp
  ultimately show "x \<in> int ` {i. i < length lines \<and> in_window lines ctx i}"
    using x(1) by (auto simp add: image_iff intro: exI [of _ "nat x"])
next
  fix x
  assume "x \<in> int ` {i. i < length lines \<and> in_window lines ctx i}"
  then obtain i where i: "x = int i" "i < length lines" "in_window lines ctx i" by auto
  then obtain e where e: "e < length lines" "is_error_line (lines ! e)" "\<bar>int i - int e\<bar> \<le> ctx"
    by (auto simp add: in_window_def list_ex_iff)
  then have "x \<in> window_of lines ctx (int e)"
    using i(1,2) by (auto simp add: window_of_def)
  then show "x \<in> (\<Union>e \<in> {int i | i. i < length lines \<and> is_error_line (lines ! i)}. window_of lines ctx e)"
    using e(1,2) by blast
qed

lemma sorted_fst_of_sorted:
  fixes ps :: "(int \<times> string) list"
  assumes "sorted ps"
  shows "sorted (map fst ps)"
  using assms
  by (induction ps) (auto simp add: less_eq_prod_def)

lemma sorted_pairs_by_index:
  fixes rl :: "(int \<times> string) list"
  assumes "distinct (map fst rl)" and "fst ` set rl = int ` {i. i < n \<and> Q i}"
  shows "map fst (sort rl) = map int (filter Q [0..<n])"
proof (rule sorted_distinct_set_unique)
  show "sorted (map fst (sort rl))"
    by (rule sorted_fst_of_sorted) simp
  have "mset (map fst (sort rl)) = mset (map fst rl)" by simp
  then show "distinct (map fst (sort rl))"
    using assms(1) mset_eq_imp_distinct_iff by blast
  have "sorted (filter Q [0..<n])" by (simp add: sorted_filter [where f = "\<lambda>x. x", simplified])
  then show "sorted (map int (filter Q [0..<n]))"
    by (rule sorted_map_mono) (simp add: mono_on_def)
  show "distinct (map int (filter Q [0..<n]))"
    by (simp add: distinct_map inj_on_def)
  show "set (map fst (sort rl)) = set (map int (filter Q [0..<n]))"
    using assms(2) by auto
qed

lemma select_lines_errors:
  assumes "\<exists>l \<in> set lines. is_error_line l"
  shows "select_lines lines max_lines ctx
       = Inr (if int (length (error_context lines ctx)) > max_lines
              then py_slice_from (error_context lines ctx) (- max_lines)
              else error_context lines ctx)"
proof -
  define errs where "errs = map (\<lambda>(i, line). int i) (filter (\<lambda>(i, line). is_error_line line) (enumerate 0 lines))"
  have ne: "errs \<noteq> []"
    using assms error_indices_nonempty [of is_error_line lines] by (simp add: errs_def)
  have "excerpt_inv lines ([], {})" by (simp add: excerpt_inv_def)
  then obtain st' where st': "errors_loop lines ctx errs ([], {}) = Inr st'" "excerpt_inv lines st'"
      "snd st' = snd ([] :: (int \<times> string) list, {} :: int set) \<union> (\<Union>e \<in> set errs. window_of lines ctx e)"
    using errors_loop_inv [of lines "([], {})" ctx errs] by blast
  obtain rl ri where s: "st' = (rl, ri)" by (cases st')
  have "set errs = {int i | i. i < length lines \<and> is_error_line (lines ! i)}"
    unfolding errs_def by (rule error_indices_set)
  then have "(\<Union>e \<in> set errs. window_of lines ctx e)
           = int ` {i. i < length lines \<and> in_window lines ctx i}"
    by (simp only: windows_union)
  then have ri: "ri = int ` {i. i < length lines \<and> in_window lines ctx i}"
    using st'(3) s by simp
  have inv: "ri = fst ` set rl" "distinct (map fst rl)"
    "\<forall>p \<in> set rl. snd p = lines ! nat (fst p)"
    using st'(2) s by (auto simp add: excerpt_inv_def)
  have idx: "map fst (sort rl) = map int (filter (in_window lines ctx) [0..<length lines])"
    using sorted_pairs_by_index [OF inv(2), of "length lines" "in_window lines ctx"] inv(1) ri by simp
  have "map snd (sort rl) = map (\<lambda>p. lines ! nat (fst p)) (sort rl)"
    using inv(3) by (intro map_cong) auto
  also have "\<dots> = map (\<lambda>i. lines ! nat i) (map fst (sort rl))"
    by (simp add: comp_def)
  also have "\<dots> = error_context lines ctx"
    by (simp add: idx error_context_def comp_def)
  finally have ex: "map snd (sort rl) = error_context lines ctx" .
  have "length (map snd (sort rl)) = length (error_context lines ctx)"
    by (simp only: ex)
  then have len: "length rl = length (error_context lines ctx)"
    by simp
  have sl: "map snd (py_slice_from (sort rl) k) = py_slice_from (error_context lines ctx) k" for k
    using len by (simp add: py_slice_from_def drop_map [symmetric] ex Let_def)
  show ?thesis
    unfolding select_lines_def errs_def [symmetric] Let_def
    using ne st'(1) s by (simp add: ex sl len)
qed

lemma select_lines_no_errors:
  assumes "\<forall>l \<in> set lines. \<not> is_error_line l"
  shows "select_lines lines max_lines ctx
       = Inr (if int (length lines) > max_lines then py_slice_from lines (- max_lines) else lines)"
proof -
  have "map (\<lambda>(i, line). int i) (filter (\<lambda>(i, line). is_error_line line) (enumerate 0 lines)) = []"
    using assms error_indices_nonempty [of is_error_line lines] by blast
  then show ?thesis
    by (simp add: select_lines_def)
qed

lemma truncate_last_n:
  assumes "1 \<le> m"
  shows "(if int (length xs) > m then py_slice_from xs (- m) else xs) = last_n (nat m) xs"
  using assms by (auto simp add: py_slice_from_def last_n_def Let_def nat_diff_distrib')

lemma map_nth_range:
  assumes "b \<le> length xs"
  shows "map (\<lambda>i. xs ! i) [a..<b] = take (b - a) (drop a xs)"
  using assms by (intro nth_equalityI) (auto simp add: min_def)

lemma single_window_indices:
  assumes "c \<le> e" and "hi = e + c + 1" and "hi \<le> n"
  shows "filter (\<lambda>i. \<bar>int i - int e\<bar> \<le> int c) [0..<n] = [e - c..<hi]"
proof (rule sorted_distinct_set_unique)
  show "sorted (filter (\<lambda>i. \<bar>int i - int e\<bar> \<le> int c) [0..<n])"
    by (simp add: sorted_filter [where f = "\<lambda>x. x", simplified])
  show "set (filter (\<lambda>i. \<bar>int i - int e\<bar> \<le> int c) [0..<n]) = set [e - c..<hi]"
    using assms by auto
  show "sorted [e - c..<hi]" by simp
  show "distinct [e - c..<hi]" by simp
  show "distinct (filter (\<lambda>i. \<bar>int i - int e\<bar> \<le> int c) [0..<n])" by simp
qed

lemma single_error_context:
  assumes "e < length lines" and "is_error_line (lines ! e)"
    and "\<forall>i < length lines. i \<noteq> e \<longrightarrow> \<not> is_error_line (lines ! i)"
    and "c \<le> e" and "e + c < length lines"
  shows "error_context lines (int c) = take (2 * c + 1) (drop (e - c) lines)"
proof -
  define hi where "hi = e + c + 1"
  have hi: "hi \<le> length lines" using assms(5) by (simp add: hi_def)
  have w: "in_window lines (int c) = (\<lambda>i. \<bar>int i - int e\<bar> \<le> int c)"
    using assms(1,2,3) by (auto simp add: in_window_def list_ex_iff fun_eq_iff)
  have "filter (in_window lines (int c)) [0..<length lines] = [e - c..<hi]"
    unfolding w by (rule single_window_indices [OF assms(4) hi_def hi])
  then have "error_context lines (int c) = map (\<lambda>i. lines ! i) [e - c..<hi]"
    by (simp add: error_context_def)
  also have "\<dots> = take (hi - (e - c)) (drop (e - c) lines)"
    by (rule map_nth_range [OF hi])
  also have "hi - (e - c) = 2 * c + 1"
    using assms(4) by (simp add: hi_def)
  finally show ?thesis .
qed

lemma split_on_single: "length (split_on c s) = 1 \<longleftrightarrow> c \<notin> set s"
proof (induction s)
  case Nil
  then show ?case by simp
next
  case (Cons a s)
  then show ?case
    using split_on_nonempty [of c s] by (cases "split_on c s") auto
qed

lemma basename_in_pieces: "basename entry \<in> set (split_on CHR ''/'' entry)"
  using split_on_nonempty [of "CHR ''/''" entry]
  by (auto simp add: basename_def split_on_absent)

lemma strict_imp_exact: "strict_pattern_match nm s \<Longrightarrow> exact_pattern_match nm s"
  by (auto simp add: strict_pattern_match_def exact_pattern_match_def match_dot_txt_end_def
      split: option.splits list.splits)

lemma exact_nonempty: "exact_pattern_match nm s \<Longrightarrow> s \<noteq> []"
  by (auto simp add: exact_pattern_match_def match_digits_underscore_def split: option.splits)

lemma prefix_nonempty: "prefix_pattern_match nm s \<Longrightarrow> s \<noteq> []"
  by (auto simp add: prefix_pattern_match_def match_digits_underscore_def split: option.splits)

lemma basename_nonempty: "basename entry \<noteq> [] \<Longrightarrow> entry \<noteq> []"
  by (auto simp add: basename_def)

lemma endswith_txt_nonempty: "endswith entry ''.txt'' \<Longrightarrow> entry \<noteq> []"
  by (auto simp add: endswith_def)

lemma truthy_find:
  assumes "\<And>x. P x \<Longrightarrow> x \<noteq> []"
  shows "truthy (find P xs) \<longleftrightarrow> find P xs \<noteq> None"
proof (cases "find P xs")
  case None
  then show ?thesis by (simp add: truthy_def)
next
  case (Some x)
  then have "P x" by (auto simp add: find_Some_iff)
  then show ?thesis using Some assms by (simp add: truthy_def)
qed

lemma step_exact_test:
  "((CHR ''/'' \<notin> set entry \<and> exact_pattern_match st entry)
     \<or> (length (split_on CHR ''/'' entry) = 2 \<and> exact_pattern_match st (split_on CHR ''/'' entry ! 1)))
   \<longleftrightarrow> (flat_or_nested entry \<and> exact_pattern_match st (basename entry))"
proof (cases "CHR ''/'' \<in> set entry")
  case False
  then show ?thesis
    by (simp add: flat_or_nested_def basename_def split_on_absent)
next
  case True
  have "last ps = ps ! 1" if "length ps = 2" for ps :: "string list"
    using that by (cases ps; cases "tl ps") auto
  then show ?thesis
    using True by (auto simp add: flat_or_nested_def basename_def Let_def)
qed

lemma find_log_file_resolution:
  assumes "\<forall>entry \<in> set names. \<forall>piece \<in> set (split_on CHR ''/'' entry).
             (exact_pattern_match (or_empty step) piece \<longrightarrow> strict_pattern_match (or_empty step) piece)
             \<and> (exact_pattern_match job piece \<longrightarrow> strict_pattern_match job piece)"
  shows "find_log_file names job step = resolve_log_entry names job step"
proof -
  define st where "st = or_empty step"
  define SE where "SE = find (\<lambda>entry.
                        (CHR ''/'' \<notin> set entry \<and> exact_pattern_match st entry)
                        \<or> (length (split_on CHR ''/'' entry) = 2
                           \<and> exact_pattern_match st (split_on CHR ''/'' entry ! 1))) names"
  define SP where "SP = find (\<lambda>entry. contains (lower entry) (lower st) \<and> endswith entry ''.txt'') names"
  define JE where "JE = find (\<lambda>entry. exact_pattern_match job (basename entry)) names"
  define JP where "JP = find (\<lambda>entry.
                          prefix_pattern_match (map (\<lambda>c. if c = CHR '' '' then CHR ''_'' else c) job)
                            (basename entry)
                          \<and> endswith entry ''.txt'' \<and> \<not> contains (lower entry) ''system'') names"
  have eq: "exact_pattern_match nm (basename entry) = strict_pattern_match nm (basename entry)"
    if "entry \<in> set names" "nm = st \<or> nm = job" for entry nm
    using assms that basename_in_pieces [of entry] strict_imp_exact [of nm "basename entry"]
    by (auto simp add: st_def)
  have SE': "SE = find (\<lambda>entry. flat_or_nested entry \<and> strict_pattern_match st (basename entry)) names"
    unfolding SE_def step_exact_test by (rule find_cong) (auto simp add: eq)
  have JE': "JE = find (\<lambda>entry. strict_pattern_match job (basename entry)) names"
    unfolding JE_def by (rule find_cong) (auto simp add: eq)
  have tSE: "truthy SE \<longleftrightarrow> SE \<noteq> None"
    unfolding SE_def step_exact_test
    by (rule truthy_find) (auto dest: exact_nonempty basename_nonempty)
  have tSP: "truthy SP \<longleftrightarrow> SP \<noteq> None"
    unfolding SP_def by (rule truthy_find) (auto dest: endswith_txt_nonempty)
  have tJE: "truthy JE \<longleftrightarrow> JE \<noteq> None"
    unfolding JE_def by (rule truthy_find) (auto dest: exact_nonempty basename_nonempty)
  have tJP: "truthy JP \<longleftrightarrow> JP \<noteq> None"
    unfolding JP_def by (rule truthy_find) (auto dest: endswith_txt_nonempty)
  have fo: "(if \<not> truthy a then b else a) = first_of a b" if "truthy a \<longleftrightarrow> a \<noteq> None" for a b :: "string option"
    using that by (cases a) (auto simp add: first_of_def)
  have tfo: "truthy (first_of a b) \<longleftrightarrow> first_of a b \<noteq> None"
    if "truthy a \<longleftrightarrow> a \<noteq> None" "truthy b \<longleftrightarrow> b \<noteq> None" for a b :: "string option"
    using that by (cases a) (auto simp add: first_of_def)
  define L1 where "L1 = (if truthy step then first_of SE SP else None)"
  define L2 where "L2 = (if job = [] then None else first_of JE JP)"
  have tL1: "truthy L1 \<longleftrightarrow> L1 \<noteq> None"
    using tfo [OF tSE tSP] by (simp add: L1_def truthy_def)
  have tL2: "truthy L2 \<longleftrightarrow> L2 \<noteq> None"
    using tfo [OF tJE tJP] by (simp add: L2_def truthy_def)
  have code: "find_log_file names job step
      = (let log_file2 = (if \<not> truthy L1 \<and> job \<noteq> [] then first_of JE JP else L1)
         in if \<not> truthy log_file2 then None else log_file2)"
    unfolding find_log_file_def Let_def st_def [symmetric]
    unfolding SE_def [symmetric] SP_def [symmetric] JE_def [symmetric] JP_def [symmetric]
    unfolding fo [OF tSE] fo [OF tJE] L1_def [symmetric]
    by simp
  have "find_log_file names job step = first_of L1 L2"
    unfolding code Let_def using tL1 tL2 tfo [OF tJE tJP]
    by (cases L1) (auto simp add: first_of_def L2_def truthy_def)
  moreover have "resolve_log_entry names job step = first_of L1 L2"
  proof -
    have "L1 = (case step of None \<Rightarrow> None
                | Some s \<Rightarrow> if s = [] then None else
                    first_of (find (\<lambda>entry. flat_or_nested entry \<and> strict_pattern_match s (basename entry)) names)
                      (find (\<lambda>entry. contains (lower entry) (lower s) \<and> endswith entry ''.txt'') names))"
      unfolding L1_def SE' SP_def st_def
      by (cases step) (auto simp add: truthy_def or_empty_def)
    then show ?thesis
      unfolding resolve_log_entry_def L2_def JE' JP_def by simp
  qed
  ultimately show ?thesis by simp
qed

text \<open>
  C2, as the code has it. The log entry is resolved in this order: for a step name that is
  given and not empty, the first entry in the flat or the nested layout whose base name
  matches the exact pattern, and if there is none the first entry that ends in \<open>.txt\<close>
  and contains the step name without regard to case; without a step match, for a job
  name that is not empty, the first entry whose base name matches the exact pattern, and
  if there is none the first entry that ends in \<open>.txt\<close>, has no \<open>system\<close> in its name and
  whose base name begins with digits, an underscore and the job name with its spaces as
  underscores; otherwise the result is absent. The statement is for archives in which
  an entry that matches the exact pattern has a dot before \<open>txt\<close>.
\<close>

theorem find_log_file_resolution_order:
  assumes "\<forall>entry \<in> set names. \<forall>piece \<in> set (split_on CHR ''/'' entry).
             (exact_pattern_match (or_empty step) piece \<longrightarrow> strict_pattern_match (or_empty step) piece)
             \<and> (exact_pattern_match job piece \<longrightarrow> strict_pattern_match job piece)"
  shows "find_log_file names job step = resolve_log_entry names job step"
  using assms by (rule find_log_file_resolution)

theorem find_log_file_resolution_order_witness:
  "find_log_file [''3_build/1_Set up job.txt'', ''3_build/2_Run tests.txt'', ''3_build/system.txt'']
     ''build'' (Some ''run tests'')
   = Some ''3_build/2_Run tests.txt''"
proof -
  have h: "\<forall>entry \<in> set [''3_build/1_Set up job.txt'', ''3_build/2_Run tests.txt'', ''3_build/system.txt''].
             \<forall>piece \<in> set (split_on CHR ''/'' entry).
             (exact_pattern_match (or_empty (Some ''run tests'')) piece
                \<longrightarrow> strict_pattern_match (or_empty (Some ''run tests'')) piece)
             \<and> (exact_pattern_match ''build'' piece \<longrightarrow> strict_pattern_match ''build'' piece)"
    by code_simp
  have r: "resolve_log_entry [''3_build/1_Set up job.txt'', ''3_build/2_Run tests.txt'', ''3_build/system.txt'']
     ''build'' (Some ''run tests'') = Some ''3_build/2_Run tests.txt''"
    by code_simp
  show ?thesis
    using find_log_file_resolution_order [OF h] r by simp
qed

text \<open>
  C2 as stated fails for the search by job name: the entry \<open>build.txt\<close> contains the job
  name \<open>build\<close>, ends in \<open>.txt\<close> and has no \<open>system\<close> in it, so a substring match locates
  it, and the code reports absent because the base name does not begin with digits and
  an underscore.
\<close>

theorem find_log_file_job_substring_counterexample:
  "find_log_file [''build.txt''] ''build'' None = None
   \<and> claimed_log_entry [''build.txt''] ''build'' None = Some ''build.txt''"
  by code_simp



text \<open>
  C1. For an archive with a located entry that can be read, and a line budget of at least
  one: when some decoded line matches an error marker, the excerpt is the lines whose
  index is within \<open>contextLines\<close> of the index of a matching line, each once and in the
  order of the file, cut to the last \<open>maxLines\<close> of them when there are more; when no line
  matches, it is the last \<open>maxLines\<close> lines of the file. With one matching line, five
  lines or more on each side of it, \<open>contextLines\<close> 5 and a budget of 11 or more, the
  excerpt is the 11 lines from five before the matching line to five after it.
\<close>

theorem extract_failing_step_logs_excerpt:
  assumes "ZipFile logs_zip = Inr zf"
    and "find_log_file (zip_namelist zf) job step = Some f"
    and "zip_read zf f = Inr content"
    and "lines = splitlines (decode content)"
    and "1 \<le> max_lines"
  shows "((\<exists>l \<in> set lines. is_error_line l)
          \<longrightarrow> extract_failing_step_logs ZipFile decode logs_zip job step max_lines ctx
                = Inr (Some (last_n (nat max_lines) (error_context lines ctx))))
       \<and> ((\<forall>l \<in> set lines. \<not> is_error_line l)
          \<longrightarrow> extract_failing_step_logs ZipFile decode logs_zip job step max_lines ctx
                = Inr (Some (last_n (nat max_lines) lines)))
       \<and> (\<forall>e. e < length lines \<and> is_error_line (lines ! e)
              \<and> (\<forall>i < length lines. i \<noteq> e \<longrightarrow> \<not> is_error_line (lines ! i))
              \<and> 5 \<le> e \<and> e + 5 < length lines \<and> ctx = 5 \<and> 11 \<le> max_lines
          \<longrightarrow> extract_failing_step_logs ZipFile decode logs_zip job step max_lines ctx
                = Inr (Some (take 11 (drop (e - 5) lines)))
              \<and> length (take 11 (drop (e - 5) lines)) = 11)"
proof -
  have body: "extract_failing_step_logs ZipFile decode logs_zip job step max_lines ctx
        = (case select_lines lines max_lines ctx of Inl e \<Rightarrow> Inr None | Inr ex \<Rightarrow> Inr (Some ex))"
    using assms(1-4)
    by (simp add: extract_failing_step_logs_def extract_body_def split: sum.splits)
  have 1: "extract_failing_step_logs ZipFile decode logs_zip job step max_lines ctx
                = Inr (Some (last_n (nat max_lines) (error_context lines ctx)))"
    if "\<exists>l \<in> set lines. is_error_line l"
    unfolding body select_lines_errors [OF that] truncate_last_n [OF assms(5)] by simp
  have 2: "extract_failing_step_logs ZipFile decode logs_zip job step max_lines ctx
                = Inr (Some (last_n (nat max_lines) lines))"
    if "\<forall>l \<in> set lines. \<not> is_error_line l"
    unfolding body select_lines_no_errors [OF that] truncate_last_n [OF assms(5)] by simp
  have 3: "extract_failing_step_logs ZipFile decode logs_zip job step max_lines ctx
                = Inr (Some (take 11 (drop (e - 5) lines)))
              \<and> length (take 11 (drop (e - 5) lines)) = 11"
    if h: "e < length lines \<and> is_error_line (lines ! e)
              \<and> (\<forall>i < length lines. i \<noteq> e \<longrightarrow> \<not> is_error_line (lines ! i))
              \<and> 5 \<le> e \<and> e + 5 < length lines \<and> ctx = 5 \<and> 11 \<le> max_lines" for e
  proof -
    have ex: "\<exists>l \<in> set lines. is_error_line l"
      using h nth_mem [of e lines] by blast
    have "error_context lines (int 5) = take (2 * 5 + 1) (drop (e - 5) lines)"
      using h by (intro single_error_context) auto
    then have ec: "error_context lines ctx = take 11 (drop (e - 5) lines)"
      using h by simp
    have len: "length (take 11 (drop (e - 5) lines)) = 11"
      using h by (auto simp add: min_def)
    have "(11 :: nat) \<le> nat max_lines"
      using h by linarith
    then have "last_n (nat max_lines) (take 11 (drop (e - 5) lines)) = take 11 (drop (e - 5) lines)"
      unfolding last_n_def len by simp
    then show ?thesis
      using 1 [OF ex] ec len by simp
  qed
  from 1 2 3 show ?thesis by blast
qed

theorem extract_failing_step_logs_excerpt_witness:
  "extract_failing_step_logs (\<lambda>blob. Inr [(''1_build.txt'', Inr blob)]) (map char_of)
     [97, 10, 97, 10, 97, 10, 97, 10, 97, 10, 97, 10,
      101, 114, 114, 111, 114, 58, 32, 120, 10,
      98, 10, 98, 10, 98, 10, 98, 10, 98, 10, 98, 10]
     ''build'' None 50 5
   = Inr (Some [''a'', ''a'', ''a'', ''a'', ''a'', ''error: x'', ''b'', ''b'', ''b'', ''b'', ''b''])"
proof -
  let ?blob = "[97, 10, 97, 10, 97, 10, 97, 10, 97, 10, 97, 10,
      101, 114, 114, 111, 114, 58, 32, 120, 10,
      98, 10, 98, 10, 98, 10, 98, 10, 98, 10, 98, 10] :: nat list"
  let ?lines = "[''a'', ''a'', ''a'', ''a'', ''a'', ''a'', ''error: x'', ''b'', ''b'', ''b'', ''b'', ''b'', ''b'']"
  have "find_log_file [''1_build.txt''] ''build'' None = Some ''1_build.txt''"
    by code_simp
  then have f: "find_log_file (zip_namelist [(''1_build.txt'', Inr ?blob)]) ''build'' None = Some ''1_build.txt''"
    by (simp add: zip_namelist_def)
  have r: "zip_read [(''1_build.txt'', Inr ?blob)] ''1_build.txt'' = Inr ?blob"
    by (simp add: zip_read_def)
  have l: "?lines = splitlines (map char_of ?blob)"
    by code_simp
  have e: "is_error_line ''error: x''" and a: "\<not> is_error_line ''a''" and b: "\<not> is_error_line ''b''"
    by code_simp+
  have others: "\<forall>i < length ?lines. i \<noteq> 6 \<longrightarrow> \<not> is_error_line (?lines ! i)"
  proof (intro allI impI)
    fix i assume "i < length ?lines" and n6: "i \<noteq> 6"
    then have "i < 13" by simp
    with n6 have "i = 0 \<or> i = 1 \<or> i = 2 \<or> i = 3 \<or> i = 4 \<or> i = 5
        \<or> i = 7 \<or> i = 8 \<or> i = 9 \<or> i = 10 \<or> i = 11 \<or> i = 12" by arith
    then show "\<not> is_error_line (?lines ! i)" using a b by auto
  qed
  have h: "6 < length ?lines \<and> is_error_line (?lines ! 6)
           \<and> (\<forall>i < length ?lines. i \<noteq> 6 \<longrightarrow> \<not> is_error_line (?lines ! i))
           \<and> 5 \<le> (6 :: nat) \<and> 6 + 5 < length ?lines \<and> (5 :: int) = 5 \<and> (11 :: int) \<le> 50"
    using e others by simp
  have m: "(1 :: int) \<le> 50" by simp
  from extract_failing_step_logs_excerpt
    [where ZipFile = "\<lambda>blob. Inr [(''1_build.txt'', Inr blob)]" and logs_zip = ?blob
       and zf = "[(''1_build.txt'', Inr ?blob)]" and job = "''build''" and step = None
       and f = "''1_build.txt''" and content = ?blob and lines = ?lines
       and decode = "map char_of" and max_lines = 50 and ctx = 5] f r l m h
  have "extract_failing_step_logs (\<lambda>blob. Inr [(''1_build.txt'', Inr blob)]) (map char_of) ?blob
          ''build'' None 50 5
        = Inr (Some (take 11 (drop (6 - 5) ?lines)))"
    by blast
  then show ?thesis by simp
qed

end
